theory Spec2Isabelle
  imports Main "HOL-Library.Word"
begin

unbundle bit_operations_syntax

section \<open>Go values that can be raised by \<open>panic\<close>\<close>

text \<open>
  The recovery middleware inspects the dynamic type of the recovered value. The types it
  tests for are kept apart, each with its nil pointer: \<open>*net.OpError\<close> and
  \<open>*os.SyscallError\<close>, whose field \<open>Err\<close> is an interface that may be nil. Every other
  error is an \<open>errors.New\<close> text or an error of the runtime; values that are not errors
  are strings or integers. A \<open>panic(nil)\<close> reaches \<open>recover\<close> as a
  \<open>*runtime.PanicNilError\<close> (Go 1.21 and later), an error of the runtime here.
\<close>

datatype go_error =
    ErrorString string
  | RuntimeError string
  | SyscallError string "go_error option"
  | NilSyscallError
  | OpError string string "string option" "string option" "go_error option"
  | NilOpError

text \<open>
  The \<open>Error()\<close> methods; \<open>None\<close> is the nil dereference, which panics.
  \<open>SyscallError\<close> returns \<open>Syscall + ": " + Err.Error()\<close> and reads its receiver
  first; \<open>OpError\<close> answers \<open><nil>\<close> for a nil receiver and otherwise joins \<open>Op\<close>,
  \<open>Net\<close>, \<open>Source\<close> and \<open>Addr\<close> before \<open>": " + Err.Error()\<close>.
\<close>

fun Error :: "go_error \<Rightarrow> string option" where
  "Error (ErrorString s) = Some s"
| "Error (RuntimeError s) = Some s"
| "Error (SyscallError syscall None) = None"
| "Error (SyscallError syscall (Some err)) =
     (case Error err of None \<Rightarrow> None | Some m \<Rightarrow> Some (syscall @ '': '' @ m))"
| "Error NilSyscallError = None"
| "Error (OpError op net source addr None) = None"
| "Error (OpError op net source addr (Some err)) =
     (case Error err of
        None \<Rightarrow> None
      | Some m \<Rightarrow>
          Some (op
            @ (if net \<noteq> [] then '' '' @ net else [])
            @ (case source of Some src \<Rightarrow> '' '' @ src | None \<Rightarrow> [])
            @ (case addr of
                 Some a \<Rightarrow> (if source \<noteq> None then ''->'' else '' '') @ a
               | None \<Rightarrow> [])
            @ '': '' @ m))"
| "Error NilOpError = Some ''<nil>''"

definition nil_dereference :: go_error where
  "nil_dereference =
     RuntimeError ''runtime error: invalid memory address or nil pointer dereference''"

text \<open>
  The verb \<open>%s\<close> of \<open>fmt\<close> on an error: the text of \<open>Error()\<close>; when the method
  panics, \<open><nil>\<close> for a nil receiver and a note of the panic otherwise.
\<close>

definition fmt_s :: "go_error \<Rightarrow> string" where
  "fmt_s err =
     (case Error err of
        Some m \<Rightarrow> m
      | None \<Rightarrow>
          (if err = NilSyscallError then ''<nil>''
           else ''%!s(PANIC=Error method: runtime error: invalid memory address or nil pointer dereference)''))"

datatype go_value = VError go_error | VString string | VInt int

section \<open>UTF-8 and \<open>strings.ToLower\<close>\<close>

text \<open>
  Strings are byte strings. \<open>utf8.DecodeRuneInString\<close> reads the first rune and its
  width: the lead byte fixes the size and the range the second byte must lie in, the
  later bytes must lie between \<open>0x80\<close> and \<open>0xBF\<close>, and whatever does not fit is
  \<open>RuneError\<close> with width 1.
\<close>

definition RuneError :: nat where
  "RuneError = 0xFFFD"

definition first :: "nat \<Rightarrow> (nat \<times> nat \<times> nat) option" where
  "first s0 =
     (if 0xC2 \<le> s0 \<and> s0 \<le> 0xDF then Some (2, 0x80, 0xBF)
      else if s0 = 0xE0 then Some (3, 0xA0, 0xBF)
      else if 0xE1 \<le> s0 \<and> s0 \<le> 0xEC then Some (3, 0x80, 0xBF)
      else if s0 = 0xED then Some (3, 0x80, 0x9F)
      else if s0 = 0xEE \<or> s0 = 0xEF then Some (3, 0x80, 0xBF)
      else if s0 = 0xF0 then Some (4, 0x90, 0xBF)
      else if 0xF1 \<le> s0 \<and> s0 \<le> 0xF3 then Some (4, 0x80, 0xBF)
      else if s0 = 0xF4 then Some (4, 0x80, 0x8F)
      else None)"

definition DecodeRuneInString :: "string \<Rightarrow> nat \<times> nat" where
  "DecodeRuneInString s =
     (case map of_char s of
        [] \<Rightarrow> (RuneError, 0)
      | s0 # rest \<Rightarrow>
          (if s0 < 0x80 then (s0, 1)
           else case first s0 of
             None \<Rightarrow> (RuneError, 1)
           | Some (sz, lo, hi) \<Rightarrow>
               (if length s < sz then (RuneError, 1)
                else let s1 = rest ! 0 in
                  if s1 < lo \<or> hi < s1 then (RuneError, 1)
                  else if sz \<le> 2 then ((s0 mod 32) * 64 + s1 mod 64, 2)
                  else let s2 = rest ! 1 in
                    if s2 < 0x80 \<or> 0xBF < s2 then (RuneError, 1)
                    else if sz \<le> 3
                      then ((s0 mod 16) * 4096 + (s1 mod 64) * 64 + s2 mod 64, 3)
                    else let s3 = rest ! 2 in
                      if s3 < 0x80 \<or> 0xBF < s3 then (RuneError, 1)
                      else ((s0 mod 8) * 262144 + (s1 mod 64) * 4096
                              + (s2 mod 64) * 64 + s3 mod 64, 4))))"

text \<open>The runes a \<open>range\<close> loop over the string meets.\<close>

function runes :: "string \<Rightarrow> nat list" where
  "runes s =
     (if s = [] then []
      else fst (DecodeRuneInString s) # runes (drop (snd (DecodeRuneInString s)) s))"
  by pat_completeness auto
termination
proof (relation "measure length")
  show "wf (measure length)" by simp
next
  fix s :: string
  assume nonempty: "s \<noteq> []"
  then have "1 \<le> snd (DecodeRuneInString s)"
    by (cases s) (auto simp: DecodeRuneInString_def Let_def split: option.splits)
  with nonempty show "(drop (snd (DecodeRuneInString s)) s, s) \<in> measure length"
    by (cases s) auto
qed

declare runes.simps [simp del]

text \<open>
  \<open>utf8.AppendRune\<close>: one to four bytes; a surrogate or a value beyond \<open>MaxRune\<close>
  is written as \<open>RuneError\<close>.
\<close>

definition EncodeRune :: "nat \<Rightarrow> string" where
  "EncodeRune r =
     (if r \<le> 0x7F then [char_of r]
      else if r \<le> 0x7FF then [char_of (0xC0 + r div 64), char_of (0x80 + r mod 64)]
      else if r > 0x10FFFF \<or> (0xD800 \<le> r \<and> r \<le> 0xDFFF)
        then [char_of (0xEF :: nat), char_of (0xBF :: nat), char_of (0xBD :: nat)]
      else if r \<le> 0xFFFF
        then [char_of (0xE0 + r div 4096), char_of (0x80 + (r div 64) mod 64),
              char_of (0x80 + r mod 64)]
      else [char_of (0xF0 + r div 262144), char_of (0x80 + (r div 4096) mod 64),
            char_of (0x80 + (r div 64) mod 64), char_of (0x80 + r mod 64)])"

text \<open>
  \<open>strings.Map\<close> writes the image of every rune; a string in which no rune changes
  and no byte is invalid comes back as it is, which is the same bytes.
\<close>

definition Map :: "(nat \<Rightarrow> nat) \<Rightarrow> string \<Rightarrow> string" where
  "Map mapping s = concat (map (\<lambda>c. EncodeRune (mapping c)) (runes s))"

text \<open>
  \<open>unicode.ToLower\<close> lowers the letters \<open>A\<close> to \<open>Z\<close> itself and looks every rune
  beyond ASCII up in the table \<open>unicode.CaseRanges\<close>. The table is not part of the
  repository: \<open>caseTable\<close> stands for the lower case it gives.
\<close>

definition unicode_ToLower :: "(nat \<Rightarrow> nat) \<Rightarrow> nat \<Rightarrow> nat" where
  "unicode_ToLower caseTable r =
     (if r \<le> 0x7F then (if 65 \<le> r \<and> r \<le> 90 then r + 32 else r)
      else caseTable r)"

definition toLowerByte :: "char \<Rightarrow> char" where
  "toLowerByte c =
     (let n = (of_char c :: nat)
      in if 65 \<le> n \<and> n \<le> 90 then char_of (n + 32) else c)"

text \<open>
  \<open>strings.ToLower\<close>: a string of ASCII bytes is lowered byte by byte, and returned
  as it is when it has no upper-case letter; any other string goes through \<open>Map\<close>.
\<close>

definition ToLower :: "(nat \<Rightarrow> nat) \<Rightarrow> string \<Rightarrow> string" where
  "ToLower caseTable s =
     (let isASCII = list_all (\<lambda>c. (of_char c :: nat) < 0x80) s;
          hasUpper = list_ex (\<lambda>c. 65 \<le> (of_char c :: nat) \<and> (of_char c :: nat) \<le> 90) s
      in if isASCII then (if \<not> hasUpper then s else map toLowerByte s)
         else Map (unicode_ToLower caseTable) s)"

fun HasPrefix :: "string \<Rightarrow> string \<Rightarrow> bool" where
  "HasPrefix s [] = True"
| "HasPrefix [] (p # ps) = False"
| "HasPrefix (c # s) (p # ps) = (c = p \<and> HasPrefix s ps)"

text \<open>\<open>strings.Contains s substr\<close>: \<open>substr\<close> occurs at some position of \<open>s\<close>.\<close>

fun Contains :: "string \<Rightarrow> string \<Rightarrow> bool" where
  "Contains [] substr = (substr = [])"
| "Contains (c # s) substr = (HasPrefix (c # s) substr \<or> Contains s substr)"

text \<open>
  A reading of ``contains the phrase in any letter case'' that does not go through the
  two functions: some stretch of the text, with its letters \<open>A\<close> to \<open>Z\<close> lowered,
  is the phrase.
\<close>

definition contains_ignoring_case :: "string \<Rightarrow> string \<Rightarrow> bool" where
  "contains_ignoring_case s phrase =
     (\<exists>before w after. s = before @ w @ after \<and> map toLowerByte w = phrase)"

section \<open>Classification of a recovered value\<close>

text \<open>
  Lines 200 to 207 of \<open>GinRecovery\<close>: the flag \<open>brokenPipe\<close> starts false and is set
  only below the two type assertions. The first assertion also holds for a nil
  \<open>*net.OpError\<close>, whose field \<open>ne.Err\<close> cannot be read; the second fails for a nil
  interface and holds for a nil \<open>*os.SyscallError\<close>, whose \<open>Error()\<close> cannot run.
  \<open>None\<close> is the panic of such a dereference.
\<close>

definition brokenPipe :: "(nat \<Rightarrow> nat) \<Rightarrow> go_value \<Rightarrow> bool option" where
  "brokenPipe caseTable err =
     (case err of
        VError NilOpError \<Rightarrow> None
      | VError (OpError op net source addr ne_Err) \<Rightarrow>
          (case ne_Err of
             Some (SyscallError syscall cause) \<Rightarrow>
               (case Error (SyscallError syscall cause) of
                  None \<Rightarrow> None
                | Some m \<Rightarrow>
                    (if Contains (ToLower caseTable m) ''broken pipe''
                        \<or> Contains (ToLower caseTable m) ''connection reset by peer''
                     then Some True else Some False))
           | Some NilSyscallError \<Rightarrow> None
           | _ \<Rightarrow> Some False)
      | _ \<Rightarrow> Some False)"

datatype classification = BrokenConnection | Generic

definition classify :: "(nat \<Rightarrow> nat) \<Rightarrow> go_value \<Rightarrow> classification option" where
  "classify caseTable err =
     (case brokenPipe caseTable err of
        None \<Rightarrow> None
      | Some bp \<Rightarrow> Some (if bp then BrokenConnection else Generic))"

section \<open>Log entries\<close>

text \<open>
  An entry handed to the zap logger: its level, its message and its fields in the order
  the call lists them. The sink is the list \<open>logged\<close> of the state below; the core built
  in \<open>InitLogger3\<close> has threshold \<open>DebugLevel\<close>, so every entry is kept.
\<close>

datatype zap_level = DebugLevel | InfoLevel | ErrorLevel

datatype field_value = ZInt int | ZString string | ZDuration int | ZAny go_value

record entry =
  entry_level :: zap_level
  entry_message :: string
  entry_fields :: "(string \<times> field_value) list"

section \<open>The request and the gin context\<close>

text \<open>
  Of the request, the parts the two middlewares read. \<open>client_ip\<close> is what
  \<open>c.ClientIP()\<close> returns, \<open>user_agent\<close> what \<open>Request.UserAgent()\<close> returns, and
  \<open>dump\<close> the bytes \<open>httputil.DumpRequest\<close> makes of the request line and the
  headers. The handlers leave \<open>c.Request\<close> and its \<open>URL\<close> in place; a context
  without them, on which these reads and the dump would panic, is left out.
\<close>

record request =
  Method :: string
  URL_Path :: string
  URL_RawQuery :: string
  client_ip :: string
  user_agent :: string
  dump :: string

text \<open>
  \<open>DumpRequest\<close> returns a pair of bytes and error. Called without the body it
  writes into a buffer only, and no path through it returns an error.
\<close>

definition DumpRequest :: "request \<Rightarrow> string \<times> go_error option" where
  "DumpRequest req = (dump req, None)"

record gin_error =
  Err :: go_error
  Type :: "64 word"
  Meta :: "string option"

text \<open>
  The state one request runs in: the context \<open>c\<close> (request, response writer, abort
  mark, error list), the logger's sink, the monotonic clock in nanoseconds, and what
  \<open>debug.Stack\<close> would print for the running goroutine. Of the response writer,
  \<open>status\<close> is what \<open>c.Writer.Status()\<close> answers and \<open>sent_status\<close> the status line
  that has gone out to the peer, if one has.
\<close>

record state =
  Request :: request
  status :: int
  sent_status :: "int option"
  body :: string
  aborted :: bool
  Errors :: "gin_error list"
  logged :: "entry list"
  clock :: int
  goroutine :: nat
  frames :: string

text \<open>
  A handler runs on the state and either returns or panics with a value; the state it
  leaves is kept in both cases, since \<open>c\<close> is shared by reference. A middleware is a
  handler that is given what \<open>c.Next()\<close> runs.
\<close>

datatype outcome = Returned | Panicked go_value

type_synonym handler = "state \<Rightarrow> outcome \<times> state"

type_synonym middleware = "handler \<Rightarrow> handler"

section \<open>The logger\<close>

definition logger_emit :: "zap_level \<Rightarrow> string \<Rightarrow> (string \<times> field_value) list \<Rightarrow> state \<Rightarrow> state" where
  "logger_emit lvl m fs c =
     c\<lparr>logged := logged c @ [\<lparr>entry_level = lvl, entry_message = m, entry_fields = fs\<rparr>]\<rparr>"

definition logger_Info :: "string \<Rightarrow> (string \<times> field_value) list \<Rightarrow> state \<Rightarrow> state" where
  "logger_Info = logger_emit InfoLevel"

definition logger_Error :: "string \<Rightarrow> (string \<times> field_value) list \<Rightarrow> state \<Rightarrow> state" where
  "logger_Error = logger_emit ErrorLevel"

section \<open>Decimal printing and the stack trace\<close>

fun Itoa :: "nat \<Rightarrow> string" where
  "Itoa n = (if n < 10 then [char_of (48 + n)] else Itoa (n div 10) @ [char_of (48 + n mod 10)])"

text \<open>The verb \<open>%02d\<close>: at least two digits, padded with a zero.\<close>

definition fmt_02d :: "nat \<Rightarrow> string" where
  "fmt_02d n = (if n < 10 then ''0'' @ Itoa n else Itoa n)"

text \<open>
  \<open>debug.Stack()\<close> prints the header line of the goroutine and then its frames.
\<close>

definition debug_Stack :: "state \<Rightarrow> string" where
  "debug_Stack c = ''goroutine '' @ Itoa (goroutine c) @ '' [running]:'' @ [CHR 0x0A] @ frames c"

section \<open>The gin operations the middlewares call\<close>

definition ErrorTypePrivate :: "64 word" where
  "ErrorTypePrivate = push_bit 0 1"

definition ErrorTypeAny :: "64 word" where
  "ErrorTypeAny = push_bit 64 1 - 1"

definition IsType :: "gin_error \<Rightarrow> 64 word \<Rightarrow> bool" where
  "IsType msg flags = ((Type msg AND flags) > 0)"

definition ByType :: "gin_error list \<Rightarrow> 64 word \<Rightarrow> gin_error list" where
  "ByType a typ =
     (if a = [] then []
      else if typ = ErrorTypeAny then a
      else filter (\<lambda>msg. IsType msg typ) a)"

fun errorMsgs_lines :: "nat \<Rightarrow> gin_error list \<Rightarrow> string" where
  "errorMsgs_lines i [] = []"
| "errorMsgs_lines i (msg # a) =
     ''Error #'' @ fmt_02d (i + 1) @ '': '' @ fmt_s (Err msg) @ [CHR 0x0A]
     @ (case Meta msg of Some m \<Rightarrow> ''     Meta: '' @ m @ [CHR 0x0A] | None \<Rightarrow> [])
     @ errorMsgs_lines (i + 1) a"

definition errorMsgs_String :: "gin_error list \<Rightarrow> string" where
  "errorMsgs_String a = (if a = [] then [] else errorMsgs_lines 0 a)"

text \<open>\<open>c.Error(err)\<close> appends the error, wrapped as a private one.\<close>

definition ctx_Error :: "go_error \<Rightarrow> state \<Rightarrow> state" where
  "ctx_Error err c = c\<lparr>Errors := Errors c @ [\<lparr>Err = err, Type = ErrorTypePrivate, Meta = None\<rparr>]\<rparr>"

definition Abort :: "state \<Rightarrow> state" where
  "Abort c = c\<lparr>aborted := True\<rparr>"

text \<open>
  The response writer of gin 1.9.0 and later (the repository pins no version, and a
  build resolves a current one). \<open>Written\<close> says that the status line has gone out.
  \<open>WriteHeader\<close> records a positive code as the writer's status unless the status line
  has gone out, in which case it leaves the status alone; \<open>WriteHeaderNow\<close> sends the
  status line with the recorded status unless one has been sent; writing body bytes
  sends it first.
\<close>

definition written :: "state \<Rightarrow> bool" where
  "written c = (sent_status c \<noteq> None)"

definition WriteHeader :: "int \<Rightarrow> state \<Rightarrow> state" where
  "WriteHeader code c =
     (if code > 0 \<and> status c \<noteq> code
      then (if written c then c else c\<lparr>status := code\<rparr>)
      else c)"

definition WriteHeaderNow :: "state \<Rightarrow> state" where
  "WriteHeaderNow c = (if \<not> written c then c\<lparr>sent_status := Some (status c)\<rparr> else c)"

definition AbortWithStatus :: "int \<Rightarrow> state \<Rightarrow> state" where
  "AbortWithStatus code c = Abort (WriteHeaderNow (WriteHeader code c))"

definition bodyAllowedForStatus :: "int \<Rightarrow> bool" where
  "bodyAllowedForStatus code =
     (if 100 \<le> code \<and> code \<le> 199 then False
      else if code = 204 then False
      else if code = 304 then False
      else True)"

text \<open>
  \<open>c.String(code, text)\<close> renders a text without verbs: it sets the status and, for a
  status that allows a body, writes the text; otherwise it sends the status line only.
\<close>

definition ctx_String :: "int \<Rightarrow> string \<Rightarrow> state \<Rightarrow> state" where
  "ctx_String code text c =
     (let c1 = WriteHeaderNow (WriteHeader code c)
      in if bodyAllowedForStatus code then c1\<lparr>body := body c1 @ text\<rparr> else c1)"

definition StatusOK :: int where
  "StatusOK = 200"

definition StatusInternalServerError :: int where
  "StatusInternalServerError = 500"

section \<open>GinLogger\<close>

text \<open>
  Lines 172 to 191. The start time, the path and the query are read before
  \<open>c.Next()\<close>; everything else is read after it. There is no \<open>defer\<close>: a panic of
  \<open>c.Next()\<close> leaves the function at once.
\<close>

definition GinLogger :: middleware where
  "GinLogger next c =
     (let start = clock c;
          path = URL_Path (Request c);
          query = URL_RawQuery (Request c)
      in case next c of
           (Panicked err, c') \<Rightarrow> (Panicked err, c')
         | (Returned, c') \<Rightarrow>
             (let cost = clock c' - start
              in (Returned,
                  logger_Info path
                    [(''status'', ZInt (status c')),
                     (''method'', ZString (Method (Request c'))),
                     (''path'', ZString path),
                     (''query'', ZString query),
                     (''ip'', ZString (client_ip (Request c'))),
                     (''user-agent'', ZString (user_agent (Request c'))),
                     (''errors'', ZString (errorMsgs_String (ByType (Errors c') ErrorTypePrivate))),
                     (''cost'', ZDuration cost)]
                    c')))"

section \<open>GinRecovery\<close>

text \<open>
  Lines 194 to 238. The deferred function runs when \<open>c.Next()\<close> has returned or
  panicked; \<open>recover()\<close> is nil in the first case and the raised value in the second.
  A nil dereference while the flag \<open>brokenPipe\<close> is worked out is a new panic, raised
  inside the deferred function before anything is logged: nothing recovers it, and it
  leaves \<open>GinRecovery\<close>. The assertion \<open>err.(error)\<close> of line 216 panics for a value
  that is not an error.
\<close>

definition GinRecovery :: "(nat \<Rightarrow> nat) \<Rightarrow> bool \<Rightarrow> middleware" where
  "GinRecovery caseTable stack next c =
     (case next c of
        (Returned, c') \<Rightarrow> (Returned, c')
      | (Panicked err, c') \<Rightarrow>
          (case brokenPipe caseTable err of
             None \<Rightarrow> (Panicked (VError nil_dereference), c')
           | Some bp \<Rightarrow>
               (let httpRequest = fst (DumpRequest (Request c'))
                in if bp then
                     (let c1 = logger_Error (URL_Path (Request c'))
                                 [(''error'', ZAny err),
                                  (''request'', ZString httpRequest)]
                                 c'
                      in case err of
                           VError e \<Rightarrow> (Returned, Abort (ctx_Error e c1))
                         | _ \<Rightarrow> (Panicked (VError (RuntimeError
                                   ''interface conversion: interface {} is not error'')), c1))
                   else
                     (let c1 = (if stack then
                                  logger_Error ''[Recovery from panic]''
                                    [(''error'', ZAny err),
                                     (''request'', ZString httpRequest),
                                     (''stack'', ZString (debug_Stack c'))]
                                    c'
                                else
                                  logger_Error ''[Recovery from panic]''
                                    [(''error'', ZAny err),
                                     (''request'', ZString httpRequest)]
                                    c')
                      in (Returned, AbortWithStatus StatusInternalServerError c1)))))"

section \<open>The chain of \<open>mainDemo4\<close>\<close>

text \<open>
  \<open>r.Use(m1, m2)\<close> followed by \<open>r.GET(path, h)\<close> makes the chain \<open>m1, m2, h\<close>.
  Each of the two middlewares calls \<open>c.Next()\<close> once, which runs the rest of the
  chain inside it, so the first one registered is the outermost.
\<close>

definition Use :: "middleware list \<Rightarrow> handler \<Rightarrow> handler" where
  "Use ms h = foldr (\<lambda>m rest. m rest) ms h"

definition mainDemo4_chain :: "(nat \<Rightarrow> nat) \<Rightarrow> handler \<Rightarrow> handler" where
  "mainDemo4_chain caseTable h = Use [GinLogger, GinRecovery caseTable True] h"

definition hello :: handler where
  "hello c = (Returned, ctx_String StatusOK ''hello!'' c)"

text \<open>
  Modelled from the spec: the serving loop of the host (\<open>r.Run()\<close>), which is not part
  of the repository. It gives each request a fresh context, keeps the logger and the
  clock, and goes on to the next request when the chain returns; a fault that reaches
  it ends the loop with the requests that are left unserved. The result counts the
  requests that were served.
\<close>

definition new_context :: "request \<Rightarrow> state \<Rightarrow> state" where
  "new_context req c =
     c\<lparr>Request := req, status := StatusOK, sent_status := None, body := [],
       aborted := False, Errors := []\<rparr>"

fun serve :: "handler \<Rightarrow> request list \<Rightarrow> state \<Rightarrow> outcome \<times> nat \<times> state" where
  "serve chain [] c = (Returned, 0, c)"
| "serve chain (req # reqs) c =
     (case chain (new_context req c) of
        (Panicked err, c') \<Rightarrow> (Panicked err, 0, c')
      | (Returned, c') \<Rightarrow>
          (case serve chain reqs c' of (out, n, c'') \<Rightarrow> (out, Suc n, c'')))"

section \<open>Concrete inputs\<close>

text \<open>
  A case table for the concrete inputs: of Go's table it has the two runes beyond ASCII
  whose lower case is an ASCII letter, the dotted capital I and the Kelvin sign.
\<close>

definition specimen_table :: "nat \<Rightarrow> nat" where
  "specimen_table r = (if r = 0x130 then 0x69 else if r = 0x212A then 0x6B else r)"

text \<open>
  A request for \<open>/hello\<close>, the state it arrives in, a handler that panics with a given
  value after five nanoseconds, and one that answers before it panics.
\<close>

definition example_request :: request where
  "example_request =
     \<lparr>Method = ''GET'', URL_Path = ''/hello'', URL_RawQuery = ''a=1'',
      client_ip = ''10.0.0.7'', user_agent = ''curl/8.0'',
      dump = ''GET /hello?a=1 HTTP/1.1''\<rparr>"

definition example_state :: state where
  "example_state =
     \<lparr>Request = example_request, status = 200, sent_status = None, body = [],
      aborted = False, Errors = [], logged = [], clock = 1000, goroutine = 7,
      frames = ''main.boom()''\<rparr>"

definition boom :: "go_value \<Rightarrow> handler" where
  "boom v c = (Panicked v, c\<lparr>clock := clock c + 5\<rparr>)"

definition hello_then_boom :: handler where
  "hello_then_boom c = (Panicked (VString ''boom''), ctx_String StatusOK ''hello!'' c)"


definition nil_cause :: go_value where
  "nil_cause = VError (OpError ''write'' ''tcp'' None None (Some (SyscallError ''write'' None)))"

text \<open>
  A broken pipe spelt with the Kelvin sign, which the specimen table lowers to \<open>k\<close>.
\<close>

definition kelvin_pipe :: go_value where
  "kelvin_pipe = VError (OpError ''write'' ''tcp'' None None
     (Some (SyscallError ''write''
        (Some (ErrorString (''BRO'' @ [CHR 0xE2, CHR 0x84, CHR 0xAA] @ ''EN PIPE''))))))"

section \<open>Facts about the string functions\<close>

lemma HasPrefix_iff: "HasPrefix s p \<longleftrightarrow> (\<exists>rest. s = p @ rest)"
  by (induction s p rule: HasPrefix.induct) auto

lemma Contains_iff: "Contains s p \<longleftrightarrow> (\<exists>before after. s = before @ p @ after)"
proof (induction s)
  case Nil
  then show ?case by auto
next
  case (Cons c s)
  show ?case
  proof
    assume "Contains (c # s) p"
    then consider "HasPrefix (c # s) p" | "Contains s p" by auto
    then show "\<exists>before after. c # s = before @ p @ after"
    proof cases
      case 1
      then obtain rest where "c # s = p @ rest" by (auto simp: HasPrefix_iff)
      then have "c # s = [] @ p @ rest" by simp
      then show ?thesis by blast
    next
      case 2
      then obtain before after where "s = before @ p @ after" using Cons.IH by blast
      then have "c # s = (c # before) @ p @ after" by simp
      then show ?thesis by blast
    qed
  next
    assume "\<exists>before after. c # s = before @ p @ after"
    then obtain before after where eq: "c # s = before @ p @ after" by blast
    show "Contains (c # s) p"
    proof (cases before)
      case Nil
      with eq have "HasPrefix (c # s) p" by (auto simp: HasPrefix_iff)
      then show ?thesis by simp
    next
      case (Cons b bs)
      with eq have "s = bs @ p @ after" by simp
      then have "Contains s p" using Cons.IH by blast
      then show ?thesis by simp
    qed
  qed
qed

lemma first_range: "first s0 = Some (sz, lo, hi) \<Longrightarrow> 0x80 \<le> lo \<and> 2 \<le> sz \<and> sz \<le> 4"
  by (auto simp: first_def split: if_splits)

lemma DecodeRune_ASCII:
  "(of_char c :: nat) < 0x80 \<Longrightarrow> DecodeRuneInString (c # rest) = (of_char c, 1)"
  by (simp add: DecodeRuneInString_def)

lemma DecodeRune_width_le4: "snd (DecodeRuneInString s) \<le> 4"
  by (auto simp: DecodeRuneInString_def Let_def split: list.splits option.splits)

lemma DecodeRune_width_before_ASCII:
  assumes "xs \<noteq> []" and "(of_char c :: nat) < 0x80"
  shows "snd (DecodeRuneInString (xs @ c # rest)) \<le> length xs"
proof (cases xs)
  case Nil
  with assms show ?thesis by simp
next
  case (Cons x0 xs1)
  show ?thesis
  proof (cases "(of_char x0 :: nat) < 0x80")
    case True
    with Cons show ?thesis by (simp add: DecodeRuneInString_def)
  next
    case high: False
    show ?thesis
    proof (cases "first (of_char x0)")
      case None
      with Cons high show ?thesis by (simp add: DecodeRuneInString_def)
    next
      case (Some t)
      obtain sz lo hi where t: "t = (sz, lo, hi)" by (cases t)
      with Some have rng: "0x80 \<le> lo" "2 \<le> sz" "sz \<le> 4" using first_range by blast+
      show ?thesis
      proof (cases xs1)
        case Nil
        with Cons high Some t rng assms(2) show ?thesis
          by (simp add: DecodeRuneInString_def Let_def)
      next
        case c1: (Cons x1 xs2)
        show ?thesis
        proof (cases xs2)
          case Nil
          with Cons c1 high Some t rng assms(2) show ?thesis
            by (simp add: DecodeRuneInString_def Let_def)
        next
          case c2: (Cons x2 xs3)
          show ?thesis
          proof (cases xs3)
            case Nil
            with Cons c1 c2 high Some t rng assms(2) show ?thesis
              by (simp add: DecodeRuneInString_def Let_def)
          next
            case c3: (Cons x3 xs4)
            have "snd (DecodeRuneInString (xs @ c # rest)) \<le> 4" by (rule DecodeRune_width_le4)
            with Cons c1 c2 c3 show ?thesis by simp
          qed
        qed
      qed
    qed
  qed
qed

lemma runes_before_ASCII:
  assumes "(of_char c :: nat) < 0x80"
  shows "\<exists>pre. runes (xs @ c # rest) = pre @ runes (c # rest)"
proof (induction xs rule: length_induct)
  case (1 xs)
  show ?case
  proof (cases "xs = []")
    case True
    then show ?thesis by simp
  next
    case False
    let ?w = "snd (DecodeRuneInString (xs @ c # rest))"
    from False assms have le: "?w \<le> length xs" by (rule DecodeRune_width_before_ASCII)
    have "1 \<le> ?w"
      by (cases xs) (auto simp: DecodeRuneInString_def Let_def split: option.splits)
    with le False have shorter: "length (drop ?w xs) < length xs" by (cases xs) auto
    from le have split: "drop ?w (xs @ c # rest) = drop ?w xs @ c # rest" by simp
    from 1 shorter obtain pre where "runes (drop ?w xs @ c # rest) = pre @ runes (c # rest)"
      by blast
    with split have "runes (xs @ c # rest)
        = (fst (DecodeRuneInString (xs @ c # rest)) # pre) @ runes (c # rest)"
      by (subst runes.simps) simp
    then show ?thesis by blast
  qed
qed

lemma runes_ASCII_prefix:
  "list_all (\<lambda>c. (of_char c :: nat) < 0x80) w \<Longrightarrow> runes (w @ rest) = map of_char w @ runes rest"
proof (induction w)
  case Nil
  show ?case by simp
next
  case (Cons c w)
  then have "(of_char c :: nat) < 0x80" by simp
  then have "runes ((c # w) @ rest) = of_char c # runes (w @ rest)"
    by (subst runes.simps) (simp add: DecodeRune_ASCII)
  with Cons show ?case by simp
qed

lemma EncodeRune_lower_ASCII:
  assumes "(of_char c :: nat) < 0x80"
  shows "EncodeRune (unicode_ToLower caseTable (of_char c)) = [toLowerByte c]"
  using assms by (auto simp: EncodeRune_def unicode_ToLower_def toLowerByte_def Let_def)

lemma Map_lower_ASCII:
  "list_all (\<lambda>c. (of_char c :: nat) < 0x80) w \<Longrightarrow>
     concat (map (\<lambda>r. EncodeRune (unicode_ToLower caseTable r)) (map of_char w)) = map toLowerByte w"
  by (induction w) (simp_all add: EncodeRune_lower_ASCII)

lemma toLowerByte_ASCII:
  "(of_char (toLowerByte c) :: nat) < 0x80 \<Longrightarrow> (of_char c :: nat) < 0x80"
  by (auto simp: toLowerByte_def Let_def split: if_splits)

lemma toLowerByte_id: "\<not> (65 \<le> (of_char c :: nat) \<and> (of_char c :: nat) \<le> 90) \<Longrightarrow> toLowerByte c = c"
  by (auto simp: toLowerByte_def Let_def)

lemma ToLower_ASCII:
  assumes "list_all (\<lambda>c. (of_char c :: nat) < 0x80) s"
  shows "ToLower caseTable s = map toLowerByte s"
proof -
  have "\<not> list_ex (\<lambda>c. 65 \<le> (of_char c :: nat) \<and> (of_char c :: nat) \<le> 90) t \<Longrightarrow> map toLowerByte t = t" for t
    by (induction t) (simp_all add: toLowerByte_id)
  with assms show ?thesis by (auto simp: ToLower_def Let_def)
qed

lemma ToLower_not_ASCII:
  "\<not> list_all (\<lambda>c. (of_char c :: nat) < 0x80) s \<Longrightarrow>
     ToLower caseTable s = Map (unicode_ToLower caseTable) s"
  by (simp add: ToLower_def Let_def)

text \<open>
  A stretch of ASCII bytes is decoded byte by byte wherever it stands in the string, so
  a stretch that is the phrase up to the case of its letters is found by the test of
  line 203 under every case table.
\<close>

lemma ASCII_stretch_lowered:
  assumes "list_all (\<lambda>c. (of_char c :: nat) < 0x80) w"
  shows "\<exists>x y. ToLower caseTable (b @ w @ a) = x @ map toLowerByte w @ y"
proof (cases "list_all (\<lambda>c. (of_char c :: nat) < 0x80) (b @ w @ a)")
  case True
  then have "ToLower caseTable (b @ w @ a)
               = map toLowerByte b @ map toLowerByte w @ map toLowerByte a"
    by (simp only: ToLower_ASCII map_append)
  then show ?thesis by blast
next
  case False
  then have low: "ToLower caseTable (b @ w @ a) = Map (unicode_ToLower caseTable) (b @ w @ a)"
    by (rule ToLower_not_ASCII)
  show ?thesis
  proof (cases w)
    case Nil
    then have "ToLower caseTable (b @ w @ a) = ToLower caseTable (b @ w @ a) @ map toLowerByte w @ []"
      by simp
    then show ?thesis by blast
  next
    case (Cons c w')
    with assms have "(of_char c :: nat) < 0x80" by simp
    then obtain pre where "runes (b @ c # (w' @ a)) = pre @ runes (c # (w' @ a))"
      using runes_before_ASCII by blast
    with Cons have "runes (b @ w @ a) = pre @ runes (w @ a)" by simp
    also from assms have "runes (w @ a) = map of_char w @ runes a" by (rule runes_ASCII_prefix)
    finally have "Map (unicode_ToLower caseTable) (b @ w @ a)
        = concat (map (\<lambda>r. EncodeRune (unicode_ToLower caseTable r)) pre)
          @ concat (map (\<lambda>r. EncodeRune (unicode_ToLower caseTable r)) (map of_char w))
          @ concat (map (\<lambda>r. EncodeRune (unicode_ToLower caseTable r)) (runes a))"
      by (simp add: Map_def)
    with assms have "Map (unicode_ToLower caseTable) (b @ w @ a)
        = concat (map (\<lambda>r. EncodeRune (unicode_ToLower caseTable r)) pre)
          @ map toLowerByte w
          @ concat (map (\<lambda>r. EncodeRune (unicode_ToLower caseTable r)) (runes a))"
      by (simp only: Map_lower_ASCII)
    with low show ?thesis by (metis)
  qed
qed

lemma ASCII_stretch_found:
  assumes "contains_ignoring_case s phrase"
      and "list_all (\<lambda>c. (of_char c :: nat) < 0x80) phrase"
  shows "Contains (ToLower caseTable s) phrase"
proof -
  from assms(1) obtain b w a where s: "s = b @ w @ a" and w: "map toLowerByte w = phrase"
    by (auto simp only: contains_ignoring_case_def)
  from assms(2) w have "list_all (\<lambda>c. (of_char (toLowerByte c) :: nat) < 0x80) w"
    by (auto simp: list_all_iff)
  then have "list_all (\<lambda>c. (of_char c :: nat) < 0x80) w"
    by (auto simp: list_all_iff toLowerByte_ASCII)
  then obtain x y where "ToLower caseTable (b @ w @ a) = x @ map toLowerByte w @ y"
    using ASCII_stretch_lowered by blast
  with s w have "\<exists>before after. ToLower caseTable s = before @ phrase @ after" by blast
  then show ?thesis by (simp only: Contains_iff)
qed

section \<open>Facts about the classification\<close>

lemma brokenPipe_True_is_error: "brokenPipe caseTable err = Some True \<Longrightarrow> \<exists>e. err = VError e"
  by (cases err) (simp_all add: brokenPipe_def)

lemma classify_Generic: "classify caseTable err = Some Generic \<longleftrightarrow> brokenPipe caseTable err = Some False"
  by (auto simp: classify_def split: option.splits if_splits)

lemma classify_BrokenConnection:
  "classify caseTable err = Some BrokenConnection \<longleftrightarrow> brokenPipe caseTable err = Some True"
  by (auto simp: classify_def split: option.splits if_splits)


lemma brokenPipe_signature:
  "brokenPipe caseTable err = Some True \<longleftrightarrow>
     (\<exists>op net source addr syscall cause m.
        err = VError (OpError op net source addr (Some (SyscallError syscall cause)))
        \<and> Error (SyscallError syscall cause) = Some m
        \<and> (Contains (ToLower caseTable m) ''broken pipe''
           \<or> Contains (ToLower caseTable m) ''connection reset by peer''))"
proof (cases err)
  case (VError e)
  show ?thesis
  proof (cases e)
    case (OpError op net source addr inner)
    show ?thesis
    proof (cases inner)
      case None
      with VError OpError show ?thesis by (simp add: brokenPipe_def)
    next
      case (Some se)
      show ?thesis
      proof (cases se)
        case (SyscallError syscall cause)
        with VError OpError Some show ?thesis
          by (cases "Error (SyscallError syscall cause)")
             (simp_all add: brokenPipe_def del: Error.simps)
      qed (simp_all add: VError OpError Some brokenPipe_def)
    qed
  qed (simp_all add: VError brokenPipe_def)
qed (simp_all add: brokenPipe_def)



lemma brokenPipe_nil_cause: "brokenPipe caseTable nil_cause = None"
  by (simp add: brokenPipe_def nil_cause_def)

lemma brokenPipe_boom: "brokenPipe caseTable (VString ''boom'') = Some False"
  by (simp add: brokenPipe_def)

lemma classify_boom: "classify caseTable (VString ''boom'') = Some Generic"
  by (simp add: classify_def brokenPipe_boom)

section \<open>Facts about the recovery\<close>

lemmas ops_defs = logger_Error_def logger_Info_def logger_emit_def AbortWithStatus_def Abort_def
  WriteHeaderNow_def WriteHeader_def written_def ctx_Error_def StatusInternalServerError_def

lemma GinRecovery_clean:
  "next c = (Returned, c') \<Longrightarrow> GinRecovery caseTable stack next c = (Returned, c')"
  by (simp add: GinRecovery_def)

lemma GinRecovery_generic:
  assumes "next c = (Panicked err, c')" and "brokenPipe caseTable err = Some False"
  shows "GinRecovery caseTable stack next c =
           (Returned,
            AbortWithStatus StatusInternalServerError
              (logger_Error ''[Recovery from panic]''
                 ([(''error'', ZAny err), (''request'', ZString (fst (DumpRequest (Request c'))))]
                  @ (if stack then [(''stack'', ZString (debug_Stack c'))] else []))
                 c'))"
  using assms by (simp add: GinRecovery_def Let_def)

lemma GinRecovery_broken:
  assumes "next c = (Panicked err, c')" and "brokenPipe caseTable err = Some True"
  shows "\<exists>e. err = VError e \<and>
           GinRecovery caseTable stack next c =
             (Returned,
              Abort (ctx_Error e
                (logger_Error (URL_Path (Request c'))
                   [(''error'', ZAny err), (''request'', ZString (fst (DumpRequest (Request c'))))]
                   c')))"
proof -
  from assms(2) obtain e where "err = VError e" using brokenPipe_True_is_error by blast
  with assms show ?thesis by (simp add: GinRecovery_def Let_def)
qed

lemma GinRecovery_escapes:
  assumes "next c = (Panicked err, c')" and "brokenPipe caseTable err = None"
  shows "GinRecovery caseTable stack next c = (Panicked (VError nil_dereference), c')"
  using assms by (simp add: GinRecovery_def)

lemma GinRecovery_absorbs:
  assumes "next c = (Panicked err, c')" and "brokenPipe caseTable err = Some bp"
  shows "fst (GinRecovery caseTable stack next c) = Returned"
proof (cases bp)
  case True
  with assms GinRecovery_broken [of "next" c err c' caseTable stack] show ?thesis by auto
next
  case False
  with assms(2) have "brokenPipe caseTable err = Some False" by simp
  with assms(1) show ?thesis by (simp only: GinRecovery_generic fst_conv)
qed

lemma GinRecovery_fault_entry:
  assumes "h c = (Panicked err, c')" and "brokenPipe caseTable err = Some bp"
  shows "\<exists>fault. logged (snd (GinRecovery caseTable stack h c)) = logged c' @ [fault]
           \<and> entry_level fault = ErrorLevel
           \<and> clock (snd (GinRecovery caseTable stack h c)) = clock c'"
proof (cases bp)
  case True
  with assms(2) have "brokenPipe caseTable err = Some True" by simp
  with assms(1) obtain e where r: "GinRecovery caseTable stack h c =
         (Returned,
          Abort (ctx_Error e
            (logger_Error (URL_Path (Request c'))
               [(''error'', ZAny err), (''request'', ZString (fst (DumpRequest (Request c'))))]
               c')))"
    using GinRecovery_broken by blast
  show ?thesis unfolding r by (simp add: ops_defs)
next
  case False
  with assms(2) have "brokenPipe caseTable err = Some False" by simp
  with assms(1) have r: "GinRecovery caseTable stack h c =
       (Returned,
        AbortWithStatus StatusInternalServerError
          (logger_Error ''[Recovery from panic]''
             ([(''error'', ZAny err), (''request'', ZString (fst (DumpRequest (Request c'))))]
              @ (if stack then [(''stack'', ZString (debug_Stack c'))] else []))
             c'))"
    by (rule GinRecovery_generic)
  show ?thesis unfolding r by (simp add: ops_defs)
qed

lemma boom_run: "boom v c = (Panicked v, c\<lparr>clock := clock c + 5\<rparr>)"
  by (simp add: boom_def)

lemma hello_then_boom_run:
  "hello_then_boom c = (Panicked (VString ''boom''), ctx_String StatusOK ''hello!'' c)"
  by (simp add: hello_then_boom_def)

lemma new_context_example: "new_context example_request example_state = example_state"
  by (simp add: new_context_def example_state_def StatusOK_def)



section \<open>Facts about the logger and the chain\<close>

lemma GinLogger_returned:
  assumes "next c = (Returned, c')"
  shows "GinLogger next c =
           (Returned,
            logger_Info (URL_Path (Request c))
              [(''status'', ZInt (status c')),
               (''method'', ZString (Method (Request c'))),
               (''path'', ZString (URL_Path (Request c))),
               (''query'', ZString (URL_RawQuery (Request c))),
               (''ip'', ZString (client_ip (Request c'))),
               (''user-agent'', ZString (user_agent (Request c'))),
               (''errors'', ZString (errorMsgs_String (ByType (Errors c') ErrorTypePrivate))),
               (''cost'', ZDuration (clock c' - clock c))]
              c')"
  using assms by (simp add: GinLogger_def Let_def)

lemma GinLogger_panicked:
  "next c = (Panicked err, c') \<Longrightarrow> GinLogger next c = (Panicked err, c')"
  by (simp add: GinLogger_def Let_def)

lemma mainDemo4_chain_nesting:
  "mainDemo4_chain caseTable h = GinLogger (GinRecovery caseTable True h)"
  by (simp add: mainDemo4_chain_def Use_def)

lemma GinLogger_after_return:
  assumes "fst (next c) = Returned"
  shows "fst (GinLogger next c) = Returned
       \<and> (\<exists>info. logged (snd (GinLogger next c)) = logged (snd (next c)) @ [info]
             \<and> entry_level info = InfoLevel
             \<and> map_of (entry_fields info) ''status'' = Some (ZInt (status (snd (next c))))
             \<and> map_of (entry_fields info) ''cost'' = Some (ZDuration (clock (snd (next c)) - clock c)))
       \<and> status (snd (GinLogger next c)) = status (snd (next c))"
proof -
  from assms have "next c = (Returned, snd (next c))" by (cases "next c") simp
  then show ?thesis
    by (simp add: GinLogger_returned logger_Info_def logger_emit_def)
qed

text \<open>
  In the chain of \<open>mainDemo4\<close>, whenever the handler returns or panics with a value
  whose classification ends, \<open>GinRecovery\<close> appends one error entry for a panic and
  none otherwise, and \<open>GinLogger\<close> appends exactly one info entry after it.
\<close>

lemma entries_when_classified:
  assumes "fst (h c) = Returned \<or> (\<exists>err bp. fst (h c) = Panicked err \<and> brokenPipe caseTable err = Some bp)"
  shows "\<exists>faults info.
     fst (mainDemo4_chain caseTable h c) = Returned
     \<and> logged (snd (GinRecovery caseTable True h c)) = logged (snd (h c)) @ faults
     \<and> logged (snd (mainDemo4_chain caseTable h c)) = logged (snd (GinRecovery caseTable True h c)) @ [info]
     \<and> entry_level info = InfoLevel
     \<and> (\<forall>e \<in> set faults. entry_level e = ErrorLevel)
     \<and> length faults = (case fst (h c) of Returned \<Rightarrow> 0 | Panicked err \<Rightarrow> 1)
     \<and> distinct (faults @ [info])"
proof -
  obtain out c' where run: "h c = (out, c')" by (cases "h c")
  have inner: "fst (GinRecovery caseTable True h c) = Returned
      \<and> (\<exists>faults. logged (snd (GinRecovery caseTable True h c)) = logged c' @ faults
          \<and> (\<forall>e \<in> set faults. entry_level e = ErrorLevel)
          \<and> length faults = (case out of Returned \<Rightarrow> 0 | Panicked err \<Rightarrow> 1))"
  proof (cases out)
    case Returned
    with run have "GinRecovery caseTable True h c = (Returned, c')" by (simp add: GinRecovery_clean)
    with Returned show ?thesis by simp
  next
    case (Panicked err)
    with run have p: "h c = (Panicked err, c')" by simp
    with assms obtain bp where bp: "brokenPipe caseTable err = Some bp" by auto
    from GinRecovery_fault_entry [of h c err c' caseTable bp True, OF p bp]
    obtain fault where "logged (snd (GinRecovery caseTable True h c)) = logged c' @ [fault]"
        "entry_level fault = ErrorLevel"
      by blast
    moreover have "fst (GinRecovery caseTable True h c) = Returned"
      using p bp by (rule GinRecovery_absorbs)
    ultimately show ?thesis using Panicked by (intro conjI exI [of _ "[fault]"]) simp_all
  qed
  then obtain faults where f: "logged (snd (GinRecovery caseTable True h c)) = logged c' @ faults"
      "\<forall>e \<in> set faults. entry_level e = ErrorLevel"
      "length faults = (case out of Returned \<Rightarrow> 0 | Panicked err \<Rightarrow> 1)"
    by blast
  from inner have "fst (GinRecovery caseTable True h c) = Returned" by simp
  from GinLogger_after_return [of "GinRecovery caseTable True h" c, OF this]
  obtain info where i: "fst (GinLogger (GinRecovery caseTable True h) c) = Returned"
      "logged (snd (GinLogger (GinRecovery caseTable True h) c))
         = logged (snd (GinRecovery caseTable True h c)) @ [info]"
      "entry_level info = InfoLevel"
    by blast
  from f(2) i(3) have "info \<notin> set faults" by auto
  moreover from f(3) have "distinct faults"
    by (cases faults; cases "tl faults") (auto split: outcome.splits)
  ultimately have "distinct (faults @ [info])" by simp
  with f i run show ?thesis unfolding mainDemo4_chain_nesting
    by (intro exI [of _ faults] exI [of _ info]) simp
qed

section \<open>Claims\<close>

text \<open>
  C1, as stated: for a fault classified Generic the response status is set to 500. A
  handler that has answered with status 200 and then panics leaves the status line 200
  on the wire and the writer's status at 200: \<open>AbortWithStatus\<close> cannot change a
  status that has gone out. (The values are ASCII; the case table is not consulted.)
\<close>

theorem status_line_already_sent_counterexample:
  "fst (hello_then_boom example_state) = Panicked (VString ''boom'')
   \<and> classify specimen_table (VString ''boom'') = Some Generic
   \<and> sent_status (snd (GinRecovery specimen_table True hello_then_boom example_state)) = Some 200
   \<and> status (snd (GinRecovery specimen_table True hello_then_boom example_state)) = 200"
proof -
  have r: "GinRecovery specimen_table True hello_then_boom example_state =
           (Returned,
            AbortWithStatus StatusInternalServerError
              (logger_Error ''[Recovery from panic]''
                 ([(''error'', ZAny (VString ''boom'')),
                   (''request'', ZString (fst (DumpRequest (Request (ctx_String StatusOK ''hello!'' example_state)))))]
                  @ (if True then [(''stack'', ZString (debug_Stack (ctx_String StatusOK ''hello!'' example_state)))] else []))
                 (ctx_String StatusOK ''hello!'' example_state)))"
    using hello_then_boom_run brokenPipe_boom by (rule GinRecovery_generic)
  have 1: "fst (hello_then_boom example_state) = Panicked (VString ''boom'')"
    by (simp add: hello_then_boom_def)
  have 2: "sent_status (snd (GinRecovery specimen_table True hello_then_boom example_state)) = Some 200"
    unfolding r
    by (simp add: ops_defs ctx_String_def bodyAllowedForStatus_def StatusOK_def Let_def example_state_def)
  have 3: "status (snd (GinRecovery specimen_table True hello_then_boom example_state)) = 200"
    unfolding r
    by (simp add: ops_defs ctx_String_def bodyAllowedForStatus_def StatusOK_def Let_def example_state_def)
  from 1 classify_boom 2 3 show ?thesis by simp
qed

text \<open>
  C1, amended: when the handler below \<open>GinRecovery\<close> panics with a value classified
  Generic, the middleware appends exactly one entry of level error with the message
  ``[Recovery from panic]'' and the fields \<open>error\<close> (the raised value) and
  \<open>request\<close> (the dump), followed by \<open>stack\<close> when the flag is set; it marks the
  context aborted, adds nothing to the body and returns normally, so that the serving
  loop goes on to the requests that follow. When no status line has gone out it sets
  the status to 500 and sends it; a status line that has gone out stands, and the
  writer's status stays as it was.
\<close>

theorem generic_fault_recovered:
  assumes "next c = (Panicked err, c')" and "classify caseTable err = Some Generic"
  shows "fst (GinRecovery caseTable stack next c) = Returned
       \<and> logged (snd (GinRecovery caseTable stack next c)) =
           logged c' @
           [\<lparr>entry_level = ErrorLevel, entry_message = ''[Recovery from panic]'',
             entry_fields =
               [(''error'', ZAny err), (''request'', ZString (fst (DumpRequest (Request c'))))]
               @ (if stack then [(''stack'', ZString (debug_Stack c'))] else [])\<rparr>]
       \<and> aborted (snd (GinRecovery caseTable stack next c))
       \<and> body (snd (GinRecovery caseTable stack next c)) = body c'
       \<and> (sent_status c' = None \<longrightarrow>
             status (snd (GinRecovery caseTable stack next c)) = 500
             \<and> sent_status (snd (GinRecovery caseTable stack next c)) = Some 500)
       \<and> (sent_status c' \<noteq> None \<longrightarrow>
             status (snd (GinRecovery caseTable stack next c)) = status c'
             \<and> sent_status (snd (GinRecovery caseTable stack next c)) = sent_status c')
       \<and> (c = new_context req c0 \<longrightarrow>
             serve (GinRecovery caseTable stack next) (req # reqs) c0 =
               (case serve (GinRecovery caseTable stack next) reqs
                       (snd (GinRecovery caseTable stack next c))
                of (out, n, c'') \<Rightarrow> (out, Suc n, c'')))"
proof -
  from assms(2) have nb: "brokenPipe caseTable err = Some False" by (simp add: classify_Generic)
  with assms(1) have run: "GinRecovery caseTable stack next c =
           (Returned,
            AbortWithStatus StatusInternalServerError
              (logger_Error ''[Recovery from panic]''
                 ([(''error'', ZAny err), (''request'', ZString (fst (DumpRequest (Request c'))))]
                  @ (if stack then [(''stack'', ZString (debug_Stack c'))] else []))
                 c'))"
    by (rule GinRecovery_generic)
  have 1: "fst (GinRecovery caseTable stack next c) = Returned" by (simp only: run fst_conv)
  have 2: "logged (snd (GinRecovery caseTable stack next c)) =
           logged c' @
           [\<lparr>entry_level = ErrorLevel, entry_message = ''[Recovery from panic]'',
             entry_fields =
               [(''error'', ZAny err), (''request'', ZString (fst (DumpRequest (Request c'))))]
               @ (if stack then [(''stack'', ZString (debug_Stack c'))] else [])\<rparr>]"
    unfolding run by (simp add: ops_defs)
  have 3: "aborted (snd (GinRecovery caseTable stack next c))"
    unfolding run by (simp add: ops_defs)
  have 4: "body (snd (GinRecovery caseTable stack next c)) = body c'"
    unfolding run by (simp add: ops_defs)
  have 5: "sent_status c' = None \<longrightarrow>
             status (snd (GinRecovery caseTable stack next c)) = 500
             \<and> sent_status (snd (GinRecovery caseTable stack next c)) = Some 500"
    unfolding run by (simp add: ops_defs)
  have 6: "sent_status c' \<noteq> None \<longrightarrow>
             status (snd (GinRecovery caseTable stack next c)) = status c'
             \<and> sent_status (snd (GinRecovery caseTable stack next c)) = sent_status c'"
    unfolding run by (simp add: ops_defs)
  have 7: "c = new_context req c0 \<longrightarrow>
             serve (GinRecovery caseTable stack next) (req # reqs) c0 =
               (case serve (GinRecovery caseTable stack next) reqs
                       (snd (GinRecovery caseTable stack next c))
                of (out, n, c'') \<Rightarrow> (out, Suc n, c''))"
  proof
    assume "c = new_context req c0"
    with 1 show "serve (GinRecovery caseTable stack next) (req # reqs) c0 =
               (case serve (GinRecovery caseTable stack next) reqs
                       (snd (GinRecovery caseTable stack next c))
                of (out, n, c'') \<Rightarrow> (out, Suc n, c''))"
      by (cases "GinRecovery caseTable stack next (new_context req c0)") simp
  qed
  from 1 2 3 4 5 6 7 show ?thesis by blast
qed

theorem generic_fault_recovered_witness:
  "fst (GinRecovery specimen_table True (boom (VString ''boom'')) example_state) = Returned
   \<and> map entry_message
         (logged (snd (GinRecovery specimen_table True (boom (VString ''boom'')) example_state)))
       = [''[Recovery from panic]'']
   \<and> status (snd (GinRecovery specimen_table True (boom (VString ''boom'')) example_state)) = 500
   \<and> sent_status (snd (GinRecovery specimen_table True (boom (VString ''boom'')) example_state))
       = Some 500
   \<and> fst (snd (serve (GinRecovery specimen_table True (boom (VString ''boom'')))
                  [example_request] example_state)) = 1"
proof -
  have ctx: "example_state = new_context example_request example_state"
    by (simp add: new_context_example)
  have fresh: "sent_status (example_state\<lparr>clock := clock example_state + 5\<rparr>) = None"
    by (simp add: example_state_def)
  from generic_fault_recovered
         [of "boom (VString ''boom'')" example_state "VString ''boom''"
             "example_state\<lparr>clock := clock example_state + 5\<rparr>" specimen_table True
             example_request example_state "[]", OF boom_run classify_boom]
       ctx fresh
  show ?thesis by (simp add: example_state_def)
qed

text \<open>
  C2. The classification is meant to give BrokenConnection or Generic for every raised
  value. For a \<open>*net.OpError\<close> whose \<open>*os.SyscallError\<close> has no inner error it gives
  neither: \<open>se.Error()\<close> on line 203 dereferences nil inside the deferred function,
  and the new panic leaves \<open>GinRecovery\<close> with nothing logged. (Which values are
  BrokenConnection is settled by \<open>brokenPipe_signature\<close> above.)
\<close>

theorem nil_cause_not_classified:
  "classify caseTable nil_cause = None
   \<and> GinRecovery caseTable stack (boom nil_cause) example_state
       = (Panicked (VError nil_dereference), example_state\<lparr>clock := clock example_state + 5\<rparr>)"
proof -
  have "brokenPipe caseTable nil_cause = None" by (rule brokenPipe_nil_cause)
  moreover from boom_run this
  have "GinRecovery caseTable stack (boom nil_cause) example_state
       = (Panicked (VError nil_dereference), example_state\<lparr>clock := clock example_state + 5\<rparr>)"
    by (rule GinRecovery_escapes)
  ultimately show ?thesis by (simp add: classify_def)
qed






text \<open>
  C5. Every request is meant to leave exactly one info entry and at most one error entry.
  A handler that panics with a \<open>*net.OpError\<close> whose \<open>*os.SyscallError\<close> has no
  inner error leaves none: the deferred function of \<open>GinRecovery\<close> panics on line 203
  before it logs, \<open>GinLogger\<close> has no \<open>defer\<close>, and the panic leaves the chain.
\<close>

theorem nil_cause_fault_leaves_no_entry:
  "fst (boom nil_cause example_state) = Panicked nil_cause
   \<and> fst (mainDemo4_chain caseTable (boom nil_cause) example_state)
       = Panicked (VError nil_dereference)
   \<and> logged (snd (mainDemo4_chain caseTable (boom nil_cause) example_state)) = []"
proof -
  have inner: "GinRecovery caseTable True (boom nil_cause) example_state
       = (Panicked (VError nil_dereference), example_state\<lparr>clock := clock example_state + 5\<rparr>)"
    using boom_run brokenPipe_nil_cause by (rule GinRecovery_escapes)
  have "mainDemo4_chain caseTable (boom nil_cause) example_state
       = (Panicked (VError nil_dereference), example_state\<lparr>clock := clock example_state + 5\<rparr>)"
    unfolding mainDemo4_chain_nesting using inner by (rule GinLogger_panicked)
  then show ?thesis by (simp add: boom_def example_state_def)
qed

text \<open>
  C6. The entry for a Generic fault has no \<open>stack\<close> field when \<open>GinRecovery\<close> was
  built with the flag unset, and has a \<open>stack\<close> field holding a non-empty text when it
  was built with the flag set.
\<close>

theorem stack_field_follows_flag:
  assumes "next c = (Panicked err, c')" and "classify caseTable err = Some Generic"
  shows "\<exists>e. logged (snd (GinRecovery caseTable stack next c)) = logged c' @ [e]
           \<and> entry_level e = ErrorLevel
           \<and> entry_message e = ''[Recovery from panic]''
           \<and> (if stack
               then \<exists>t. map_of (entry_fields e) ''stack'' = Some (ZString t) \<and> t \<noteq> []
               else map_of (entry_fields e) ''stack'' = None)"
proof -
  from assms(2) have "brokenPipe caseTable err = Some False" by (simp add: classify_Generic)
  with assms(1) have run: "GinRecovery caseTable stack next c =
           (Returned,
            AbortWithStatus StatusInternalServerError
              (logger_Error ''[Recovery from panic]''
                 ([(''error'', ZAny err), (''request'', ZString (fst (DumpRequest (Request c'))))]
                  @ (if stack then [(''stack'', ZString (debug_Stack c'))] else []))
                 c'))"
    by (rule GinRecovery_generic)
  have "debug_Stack c' \<noteq> []" by (simp add: debug_Stack_def)
  then show ?thesis unfolding run by (simp add: ops_defs)
qed

theorem stack_field_follows_flag_witness:
  "(\<exists>e. logged (snd (GinRecovery specimen_table True (boom (VString ''boom'')) example_state)) = [e]
        \<and> (\<exists>t. map_of (entry_fields e) ''stack'' = Some (ZString t) \<and> t \<noteq> []))
   \<and> (\<exists>e. logged (snd (GinRecovery specimen_table False (boom (VString ''boom'')) example_state)) = [e]
        \<and> map_of (entry_fields e) ''stack'' = None)"
proof -
  from stack_field_follows_flag
         [of "boom (VString ''boom'')" example_state "VString ''boom''"
             "example_state\<lparr>clock := clock example_state + 5\<rparr>" specimen_table True,
          OF boom_run classify_boom]
       stack_field_follows_flag
         [of "boom (VString ''boom'')" example_state "VString ''boom''"
             "example_state\<lparr>clock := clock example_state + 5\<rparr>" specimen_table False,
          OF boom_run classify_boom]
  show ?thesis by (auto simp: example_state_def)
qed

text \<open>
  C7. When the rest of the chain returns, \<open>GinLogger\<close> appends exactly one info entry.
  Its path and query are those the request had before the rest of the chain ran; its
  status, method, client address, user agent and private errors are read afterwards,
  the errors joined into one string that is empty when there are none; its cost is the
  clock's advance, which is not negative for a clock that does not run backwards; the
  status in the entry is the status the response ends with.
\<close>

theorem request_logged_once:
  assumes "next c = (Returned, c')" and "clock c \<le> clock c'"
  shows "fst (GinLogger next c) = Returned
       \<and> (\<exists>e. logged (snd (GinLogger next c)) = logged c' @ [e]
             \<and> entry_level e = InfoLevel
             \<and> entry_fields e =
                 [(''status'', ZInt (status (snd (GinLogger next c)))),
                  (''method'', ZString (Method (Request c'))),
                  (''path'', ZString (URL_Path (Request c))),
                  (''query'', ZString (URL_RawQuery (Request c))),
                  (''ip'', ZString (client_ip (Request c'))),
                  (''user-agent'', ZString (user_agent (Request c'))),
                  (''errors'', ZString (errorMsgs_String (ByType (Errors c') ErrorTypePrivate))),
                  (''cost'', ZDuration (clock c' - clock c))]
             \<and> (ByType (Errors c') ErrorTypePrivate = [] \<longrightarrow> map_of (entry_fields e) ''errors'' = Some (ZString [])))
       \<and> 0 \<le> clock c' - clock c
       \<and> status (snd (GinLogger next c)) = status c'"
proof -
  note run = GinLogger_returned [of "next" c c', OF assms(1)]
  have none: "errorMsgs_String [] = []"
    by (simp add: errorMsgs_String_def)
  from assms(2) have "0 \<le> clock c' - clock c" by simp
  then show ?thesis unfolding run
    by (auto simp: logger_Info_def logger_emit_def none)
qed

theorem request_logged_once_witness:
  "fst (GinLogger hello example_state) = Returned
   \<and> (\<exists>e. logged (snd (GinLogger hello example_state)) = [e]
         \<and> entry_level e = InfoLevel
         \<and> map_of (entry_fields e) ''status'' = Some (ZInt 200)
         \<and> map_of (entry_fields e) ''path'' = Some (ZString ''/hello'')
         \<and> map_of (entry_fields e) ''errors'' = Some (ZString [])
         \<and> map_of (entry_fields e) ''cost'' = Some (ZDuration 0))"
proof -
  have run: "hello example_state = (Returned, ctx_String StatusOK ''hello!'' example_state)"
    by (simp add: hello_def)
  have mono: "clock example_state \<le> clock (ctx_String StatusOK ''hello!'' example_state)"
    by (simp add: ctx_String_def WriteHeader_def WriteHeaderNow_def Let_def)
  from request_logged_once
         [of hello example_state "ctx_String StatusOK ''hello!'' example_state", OF run mono]
  show ?thesis
    by (auto simp: ctx_String_def WriteHeader_def WriteHeaderNow_def written_def Let_def StatusOK_def
          bodyAllowedForStatus_def example_state_def example_request_def ByType_def errorMsgs_String_def)
qed

text \<open>
  C8, as stated: a cause whose message contains ``broken pipe'' makes the fault a
  BrokenConnection with no status written. A \<open>*net.OpError\<close> whose cause is an
  ordinary error with the message ``broken pipe'' is classified Generic, and the
  status line goes out with status 500. (The values are ASCII; the case table is not
  consulted.)
\<close>

theorem cause_message_alone_counterexample:
  "Error (ErrorString ''broken pipe'') = Some ''broken pipe''
   \<and> Contains (ToLower specimen_table ''broken pipe'') ''broken pipe''
   \<and> classify specimen_table (VError (OpError ''write'' ''tcp'' None None
         (Some (ErrorString ''broken pipe'')))) = Some Generic
   \<and> \<not> written example_state
   \<and> written (snd (GinRecovery specimen_table False
         (boom (VError (OpError ''write'' ''tcp'' None None (Some (ErrorString ''broken pipe'')))))
         example_state))
   \<and> status (snd (GinRecovery specimen_table False
         (boom (VError (OpError ''write'' ''tcp'' None None (Some (ErrorString ''broken pipe'')))))
         example_state)) = 500"
proof -
  have 0: "Error (ErrorString ''broken pipe'') = Some ''broken pipe''" by simp
  have 1: "Contains (ToLower specimen_table ''broken pipe'') ''broken pipe''"
    by code_simp
  have 2: "brokenPipe specimen_table
             (VError (OpError ''write'' ''tcp'' None None (Some (ErrorString ''broken pipe''))))
           = Some False"
    by (simp add: brokenPipe_def)
  from 2 have 3: "classify specimen_table (VError (OpError ''write'' ''tcp'' None None
         (Some (ErrorString ''broken pipe'')))) = Some Generic"
    by (simp add: classify_def)
  have 4: "\<not> written example_state" by (simp add: example_state_def written_def)
  have run: "GinRecovery specimen_table False
         (boom (VError (OpError ''write'' ''tcp'' None None (Some (ErrorString ''broken pipe'')))))
         example_state = (Returned,
            AbortWithStatus StatusInternalServerError
              (logger_Error ''[Recovery from panic]''
                 ([(''error'', ZAny (VError (OpError ''write'' ''tcp'' None None (Some (ErrorString ''broken pipe''))))),
                   (''request'', ZString (fst (DumpRequest (Request (example_state\<lparr>clock := clock example_state + 5\<rparr>)))))]
                  @ (if False then [(''stack'', ZString (debug_Stack (example_state\<lparr>clock := clock example_state + 5\<rparr>)))] else []))
                 (example_state\<lparr>clock := clock example_state + 5\<rparr>)))"
    using boom_run 2 by (rule GinRecovery_generic)
  have 5: "written (snd (GinRecovery specimen_table False
         (boom (VError (OpError ''write'' ''tcp'' None None (Some (ErrorString ''broken pipe'')))))
         example_state))"
    unfolding run by (simp add: ops_defs)
  have 6: "status (snd (GinRecovery specimen_table False
         (boom (VError (OpError ''write'' ''tcp'' None None (Some (ErrorString ''broken pipe'')))))
         example_state)) = 500"
    unfolding run by (simp add: ops_defs example_state_def)
  from 0 1 3 4 5 6 show ?thesis by blast
qed

text \<open>
  C8, amended: when the raised value is a \<open>*net.OpError\<close> whose \<open>Err\<close> is a
  \<open>*os.SyscallError\<close> whose message, lowered, contains ``broken pipe'' or ``connection
  reset by peer'', it is classified BrokenConnection and \<open>GinRecovery\<close> leaves the
  status, the status line and the body untouched.
\<close>

theorem syscall_cause_is_broken_connection:
  assumes "next c = (Panicked (VError (OpError op net source addr (Some (SyscallError syscall cause)))), c')"
      and "Error (SyscallError syscall cause) = Some m"
      and "Contains (ToLower caseTable m) ''broken pipe''
           \<or> Contains (ToLower caseTable m) ''connection reset by peer''"
  shows "classify caseTable (VError (OpError op net source addr (Some (SyscallError syscall cause))))
           = Some BrokenConnection
       \<and> status (snd (GinRecovery caseTable stack next c)) = status c'
       \<and> written (snd (GinRecovery caseTable stack next c)) = written c'
       \<and> sent_status (snd (GinRecovery caseTable stack next c)) = sent_status c'
       \<and> body (snd (GinRecovery caseTable stack next c)) = body c'"
proof -
  from assms(2,3)
  have bp: "brokenPipe caseTable (VError (OpError op net source addr (Some (SyscallError syscall cause))))
              = Some True"
    unfolding brokenPipe_signature by blast
  with assms(1) obtain e where run: "GinRecovery caseTable stack next c =
             (Returned,
              Abort (ctx_Error e
                (logger_Error (URL_Path (Request c'))
                   [(''error'', ZAny (VError (OpError op net source addr (Some (SyscallError syscall cause))))),
                    (''request'', ZString (fst (DumpRequest (Request c'))))]
                   c')))"
    using GinRecovery_broken by blast
  have "status (snd (GinRecovery caseTable stack next c)) = status c'
       \<and> written (snd (GinRecovery caseTable stack next c)) = written c'
       \<and> sent_status (snd (GinRecovery caseTable stack next c)) = sent_status c'
       \<and> body (snd (GinRecovery caseTable stack next c)) = body c'"
    unfolding run by (simp add: ops_defs)
  with bp show ?thesis by (simp add: classify_BrokenConnection)
qed

theorem syscall_cause_is_broken_connection_witness:
  "classify specimen_table kelvin_pipe = Some BrokenConnection
   \<and> status (snd (GinRecovery specimen_table True (boom kelvin_pipe) example_state)) = 200
   \<and> \<not> written (snd (GinRecovery specimen_table True (boom kelvin_pipe) example_state))"
proof -
  have run: "boom kelvin_pipe example_state
       = (Panicked (VError (OpError ''write'' ''tcp'' None None
             (Some (SyscallError ''write''
                (Some (ErrorString (''BRO'' @ [CHR 0xE2, CHR 0x84, CHR 0xAA] @ ''EN PIPE''))))))),
          example_state\<lparr>clock := clock example_state + 5\<rparr>)"
    by (simp add: boom_def kelvin_pipe_def)
  have msg: "Error (SyscallError ''write''
                (Some (ErrorString (''BRO'' @ [CHR 0xE2, CHR 0x84, CHR 0xAA] @ ''EN PIPE''))))
             = Some (''write: BRO'' @ [CHR 0xE2, CHR 0x84, CHR 0xAA] @ ''EN PIPE'')"
    by simp
  have found: "Contains (ToLower specimen_table (''write: BRO'' @ [CHR 0xE2, CHR 0x84, CHR 0xAA] @ ''EN PIPE''))
                 ''broken pipe''"
    by code_simp
  from syscall_cause_is_broken_connection
         [of "boom kelvin_pipe" example_state "''write''" "''tcp''" None None "''write''"
             "Some (ErrorString (''BRO'' @ [CHR 0xE2, CHR 0x84, CHR 0xAA] @ ''EN PIPE''))"
             "example_state\<lparr>clock := clock example_state + 5\<rparr>"
             "''write: BRO'' @ [CHR 0xE2, CHR 0x84, CHR 0xAA] @ ''EN PIPE''" specimen_table True,
          OF run msg disjI1 [OF found]]
  show ?thesis by (simp add: kelvin_pipe_def example_state_def written_def)
qed

text \<open>
  C10, as stated: after a Generic fault the info entry of \<open>GinLogger\<close> reports status
  500. A handler that has answered with status 200 and then panics is logged with
  status 200, the status that went out.
\<close>

theorem logged_status_after_sent_counterexample:
  "fst (hello_then_boom example_state) = Panicked (VString ''boom'')
   \<and> classify specimen_table (VString ''boom'') = Some Generic
   \<and> map entry_level (logged (snd (mainDemo4_chain specimen_table hello_then_boom example_state)))
       = [ErrorLevel, InfoLevel]
   \<and> map_of (entry_fields (last (logged (snd (mainDemo4_chain specimen_table hello_then_boom
                                                   example_state))))) ''status''
       = Some (ZInt 200)"
proof -
  have inner: "GinRecovery specimen_table True hello_then_boom example_state =
           (Returned,
            AbortWithStatus StatusInternalServerError
              (logger_Error ''[Recovery from panic]''
                 ([(''error'', ZAny (VString ''boom'')),
                   (''request'', ZString (fst (DumpRequest (Request (ctx_String StatusOK ''hello!'' example_state)))))]
                  @ (if True then [(''stack'', ZString (debug_Stack (ctx_String StatusOK ''hello!'' example_state)))] else []))
                 (ctx_String StatusOK ''hello!'' example_state)))"
    using hello_then_boom_run brokenPipe_boom by (rule GinRecovery_generic)
  have 1: "fst (hello_then_boom example_state) = Panicked (VString ''boom'')"
    by (simp add: hello_then_boom_def)
  have 2: "map entry_level (logged (snd (mainDemo4_chain specimen_table hello_then_boom example_state)))
       = [ErrorLevel, InfoLevel]"
    unfolding mainDemo4_chain_nesting
      GinLogger_returned [of "GinRecovery specimen_table True hello_then_boom", OF inner]
    by (simp add: ops_defs ctx_String_def bodyAllowedForStatus_def StatusOK_def Let_def example_state_def)
  have 3: "map_of (entry_fields (last (logged (snd (mainDemo4_chain specimen_table hello_then_boom
                                                   example_state))))) ''status''
       = Some (ZInt 200)"
    unfolding mainDemo4_chain_nesting
      GinLogger_returned [of "GinRecovery specimen_table True hello_then_boom", OF inner]
    by (simp add: ops_defs ctx_String_def bodyAllowedForStatus_def StatusOK_def Let_def example_state_def)
  from 1 classify_boom 2 3 show ?thesis by simp
qed

text \<open>
  C10, amended: in the chain of \<open>mainDemo4\<close>, when the handler panics with a value
  classified Generic, the info entry of \<open>GinLogger\<close> is still appended, after the fault
  entry; its \<open>status\<close> field is the 500 that \<open>GinRecovery\<close> has set when no status
  line had gone out, and the status that had gone out otherwise.
\<close>

theorem logger_reports_status_after_generic_fault:
  assumes "h c = (Panicked err, c')" and "classify caseTable err = Some Generic"
  shows "fst (mainDemo4_chain caseTable h c) = Returned
       \<and> (\<exists>fault info.
             logged (snd (mainDemo4_chain caseTable h c)) = logged c' @ [fault, info]
             \<and> entry_message fault = ''[Recovery from panic]''
             \<and> entry_level info = InfoLevel
             \<and> map_of (entry_fields info) ''status''
                 = Some (ZInt (if sent_status c' = None then 500 else status c')))
       \<and> status (snd (mainDemo4_chain caseTable h c))
           = (if sent_status c' = None then 500 else status c')"
proof -
  from assms(2) have "brokenPipe caseTable err = Some False" by (simp add: classify_Generic)
  with assms(1) have r: "GinRecovery caseTable True h c =
       (Returned,
        AbortWithStatus StatusInternalServerError
          (logger_Error ''[Recovery from panic]''
             ([(''error'', ZAny err), (''request'', ZString (fst (DumpRequest (Request c'))))]
              @ (if True then [(''stack'', ZString (debug_Stack c'))] else []))
             c'))"
    by (rule GinRecovery_generic)
  have inner: "logged (snd (GinRecovery caseTable True h c)) = logged c' @
           [\<lparr>entry_level = ErrorLevel, entry_message = ''[Recovery from panic]'',
             entry_fields =
               [(''error'', ZAny err), (''request'', ZString (fst (DumpRequest (Request c')))),
                (''stack'', ZString (debug_Stack c'))]\<rparr>]"
      and st: "status (snd (GinRecovery caseTable True h c))
                 = (if sent_status c' = None then 500 else status c')"
    unfolding r by (simp_all add: ops_defs)
  have "fst (GinRecovery caseTable True h c) = Returned" by (simp only: r fst_conv)
  from GinLogger_after_return [of "GinRecovery caseTable True h" c, OF this]
  obtain info where i: "fst (GinLogger (GinRecovery caseTable True h) c) = Returned"
      "logged (snd (GinLogger (GinRecovery caseTable True h) c))
         = logged (snd (GinRecovery caseTable True h c)) @ [info]"
      "entry_level info = InfoLevel"
      "map_of (entry_fields info) ''status''
         = Some (ZInt (status (snd (GinRecovery caseTable True h c))))"
      "status (snd (GinLogger (GinRecovery caseTable True h) c))
         = status (snd (GinRecovery caseTable True h c))"
    by blast
  from inner st i have "logged (snd (GinLogger (GinRecovery caseTable True h) c)) = logged c' @
           [\<lparr>entry_level = ErrorLevel, entry_message = ''[Recovery from panic]'',
             entry_fields =
               [(''error'', ZAny err), (''request'', ZString (fst (DumpRequest (Request c')))),
                (''stack'', ZString (debug_Stack c'))]\<rparr>, info]
        \<and> entry_level info = InfoLevel
        \<and> map_of (entry_fields info) ''status''
             = Some (ZInt (if sent_status c' = None then 500 else status c'))"
    by simp
  then have "\<exists>fault info. logged (snd (GinLogger (GinRecovery caseTable True h) c)) = logged c' @ [fault, info]
             \<and> entry_message fault = ''[Recovery from panic]''
             \<and> entry_level info = InfoLevel
             \<and> map_of (entry_fields info) ''status''
                 = Some (ZInt (if sent_status c' = None then 500 else status c'))"
    by (intro exI [of _ info] exI [of _ "\<lparr>entry_level = ErrorLevel, entry_message = ''[Recovery from panic]'',
             entry_fields =
               [(''error'', ZAny err), (''request'', ZString (fst (DumpRequest (Request c')))),
                (''stack'', ZString (debug_Stack c'))]\<rparr>"]) simp
  with i(1) i(5) st show ?thesis unfolding mainDemo4_chain_nesting by simp
qed

theorem logger_reports_status_after_generic_fault_witness:
  "fst (mainDemo4_chain specimen_table (boom (VString ''boom'')) example_state) = Returned
   \<and> (\<exists>fault info.
         logged (snd (mainDemo4_chain specimen_table (boom (VString ''boom'')) example_state))
           = [fault, info]
         \<and> entry_message fault = ''[Recovery from panic]''
         \<and> entry_level info = InfoLevel
         \<and> map_of (entry_fields info) ''status'' = Some (ZInt 500))
   \<and> status (snd (mainDemo4_chain specimen_table (boom (VString ''boom'')) example_state)) = 500"
proof -
  from logger_reports_status_after_generic_fault
         [of "boom (VString ''boom'')" example_state "VString ''boom''"
             "example_state\<lparr>clock := clock example_state + 5\<rparr>" specimen_table,
          OF boom_run classify_boom]
  show ?thesis by (simp add: example_state_def)
qed

end
